theory Spec2Isabelle
  imports Complex_Main "HOL-Library.Product_Lexorder" "HOL-Library.Sublist" "HOL-Library.Word"
begin

section \<open>Exceptions\<close>

text \<open>
  The exceptions the program meets. \<open>abort(code, text)\<close> raises werkzeug's
  \<open>HTTPException\<close>, which is a subclass of \<open>Exception\<close> like every other exception here.
  The text of the message is kept as a tag, with the number it interpolates.
\<close>

datatype message =
    Invalid_URL | Could_Not_Process | Video_Too_Long rat | No_Format | File_Too_Large int
  | Error_Fetching | Exceeded_Limit | Error_During_Download

datatype pyexc =
    HTTPException nat message
  | DownloadError
  | RequestException
  | FileNotFoundError
  | OSError
  | TypeError
  | ValueError

section \<open>Strings\<close>

text \<open>
  A Python \<open>str\<close> is modelled as the list of its code points, for the strings whose code
  points are below 256: these are the values of \<open>char\<close>. The string methods the program
  calls (\<open>strip\<close>, \<open>lower\<close>, \<open>isdigit\<close>, \<open>int\<close>) and the two regular expressions of
  \<open>_safe_filename\<close> are written out on that range. Strings with code points from 256 on
  are outside the model.
\<close>

definition isspace :: "char \<Rightarrow> bool" where
  \<comment> \<open>\<open>str.isspace\<close>: tab, LF, VT, FF, CR, the separators FS, GS, RS, US, space, and beyond
      ASCII the next-line control (133) and the no-break space (160).\<close>
  "isspace c =
     (let n = (of_char c :: nat)
      in (9 \<le> n \<and> n \<le> 13) \<or> (28 \<le> n \<and> n \<le> 32) \<or> n = 133 \<or> n = 160)"

definition strip :: "string \<Rightarrow> string" where
  \<comment> \<open>\<open>s.strip()\<close>: leading and trailing white space removed.\<close>
  "strip s = rev (dropWhile isspace (rev (dropWhile isspace s)))"

definition is_upper :: "char \<Rightarrow> bool" where
  \<comment> \<open>the range \<open>A-Z\<close>\<close>
  "is_upper c = (let n = (of_char c :: nat) in 65 \<le> n \<and> n \<le> 90)"

definition is_lower :: "char \<Rightarrow> bool" where
  \<comment> \<open>the range \<open>a-z\<close>\<close>
  "is_lower c = (let n = (of_char c :: nat) in 97 \<le> n \<and> n \<le> 122)"

definition is_digit :: "char \<Rightarrow> bool" where
  \<comment> \<open>the range \<open>0-9\<close>, the decimal digits\<close>
  "is_digit c = (let n = (of_char c :: nat) in 48 \<le> n \<and> n \<le> 57)"

definition lower_char :: "char \<Rightarrow> char" where
  \<comment> \<open>the lower-case letter of \<open>A-Z\<close> and of the accented capitals 192 to 222 (215, the
      multiplication sign, is no letter); every other character is kept\<close>
  "lower_char c =
     (let n = (of_char c :: nat)
      in if (65 \<le> n \<and> n \<le> 90) \<or> (192 \<le> n \<and> n \<le> 222 \<and> n \<noteq> 215)
         then char_of (n + 32) else c)"

definition lower :: "string \<Rightarrow> string" where
  \<comment> \<open>\<open>s.lower()\<close>\<close>
  "lower s = map lower_char s"

definition isdigit_char :: "char \<Rightarrow> bool" where
  \<comment> \<open>a character that \<open>str.isdigit\<close> accepts: a decimal digit, or one of the superscripts
      two (178), three (179) and one (185), which are digits but not decimal\<close>
  "isdigit_char c =
     (let n = (of_char c :: nat) in is_digit c \<or> n = 178 \<or> n = 179 \<or> n = 185)"

definition isdigit :: "string \<Rightarrow> bool" where
  \<comment> \<open>\<open>s.isdigit()\<close>: at least one character, and every character a digit.\<close>
  "isdigit s = (s \<noteq> [] \<and> list_all isdigit_char s)"

definition int_of_digits :: "string \<Rightarrow> int" where
  \<comment> \<open>the value of a string of decimal digits\<close>
  "int_of_digits s = foldl (\<lambda>a c. 10 * a + (int (of_char c) - 48)) 0 s"

definition py_int :: "string \<Rightarrow> pyexc + int" where
  \<comment> \<open>\<open>int(s)\<close> for a string that has passed \<open>isdigit\<close>, the only place where the source
      calls it: the value when every character is a decimal digit, and \<open>ValueError\<close>
      otherwise, as for a superscript (the interpreter's limit on the length of the
      string is not modelled)\<close>
  "py_int s =
     (if s \<noteq> [] \<and> list_all is_digit s then Inr (int_of_digits s) else Inl ValueError)"

section \<open>Filename sanitisation\<close>

definition allowed :: "char \<Rightarrow> bool" where
  \<comment> \<open>the character class \<open>[A-Za-z0-9._-]\<close>\<close>
  "allowed c = (is_upper c \<or> is_lower c \<or> is_digit c \<or> c = CHR ''.'' \<or> c = CHR ''_'' \<or> c = CHR ''-'')"

function re_sub_unsafe :: "string \<Rightarrow> string" where
  \<comment> \<open>\<open>re.sub(r"[^A-Za-z0-9._-]+", "_", name)\<close>: scanning from the left, a character of the
      class is copied; at a character outside it the greedy \<open>+\<close> consumes the whole run of
      such characters and one underscore is written for the run.\<close>
  "re_sub_unsafe [] = []"
| "re_sub_unsafe (c # cs) =
     (if allowed c then c # re_sub_unsafe cs
      else CHR ''_'' # re_sub_unsafe (dropWhile (\<lambda>d. \<not> allowed d) cs))"
  by pat_completeness auto
termination
  by (relation "measure length") (auto simp: le_imp_less_Suc length_dropWhile_le)

definition video_exts :: "string list" where
  "video_exts = [''mp4'', ''mov'', ''webm'', ''mkv'']"

definition ext_match_here :: "string \<Rightarrow> bool" where
  \<comment> \<open>\<open>\.(mp4|mov|webm|mkv)$\<close> with \<open>re.I\<close>, anchored at the start of \<open>s\<close>: a dot, one of the
      extensions in any letter case, then the end of the string (\<open>$\<close> also matches just
      before a final newline).\<close>
  "ext_match_here s =
     (case s of
        [] \<Rightarrow> False
      | c # r \<Rightarrow> c = CHR ''.'' \<and>
          list_ex (\<lambda>e. lower r = e \<or> lower r = e @ [CHR 0x0A]) video_exts)"

fun re_search_ext :: "string \<Rightarrow> bool" where
  \<comment> \<open>\<open>re.search\<close>: the pattern is tried at every position of the string.\<close>
  "re_search_ext [] = False"
| "re_search_ext (c # cs) = (ext_match_here (c # cs) \<or> re_search_ext cs)"

definition safe_filename :: "string option \<Rightarrow> string" where
  \<comment> \<open>\<open>_safe_filename(name, default="video")\<close>; \<open>None\<close> and the empty string are falsy, so
      \<open>name or default\<close> is the default for both.\<close>
  "safe_filename name =
     (let name1 = strip (case name of None \<Rightarrow> ''video'' | Some n \<Rightarrow> if n = [] then ''video'' else n);
          name2 = re_sub_unsafe name1
      in if \<not> re_search_ext name2 then name2 @ ''.mp4'' else name2)"

section \<open>Format selection\<close>

text \<open>
  A format is one of the dictionaries the resolver reports. Each key the program reads
  with \<open>.get\<close> is an optional field: \<open>None\<close> stands for a missing key and for a stored
  \<open>None\<close>, which \<open>.get\<close> does not tell apart. Bit rates are rational numbers.
\<close>

record format =
  ext :: "string option"
  vcodec :: "string option"
  acodec :: "string option"
  height :: "int option"
  tbr :: "rat option"
  filesize :: "int option"
  filesize_approx :: "int option"
  url :: "string option"

definition playable_format :: "format \<Rightarrow> bool" where
  \<comment> \<open>\<open>f.get("vcodec") != "none" and f.get("acodec") != "none"\<close>\<close>
  "playable_format f = (vcodec f \<noteq> Some ''none'' \<and> acodec f \<noteq> Some ''none'')"

definition height_or_0 :: "format \<Rightarrow> int" where
  \<comment> \<open>\<open>f.get("height") or 0\<close>\<close>
  "height_or_0 f = (case height f of None \<Rightarrow> 0 | Some h \<Rightarrow> h)"

definition tbr_or_0 :: "format \<Rightarrow> rat" where
  \<comment> \<open>\<open>f.get("tbr") or 0\<close>\<close>
  "tbr_or_0 f = (case tbr f of None \<Rightarrow> 0 | Some b \<Rightarrow> b)"

definition score :: "format \<Rightarrow> int \<times> rat" where
  \<comment> \<open>the sort key; Python compares the pairs lexicographically\<close>
  "score f = (height_or_0 f, tbr_or_0 f)"

definition target_height :: "string \<Rightarrow> pyexc + int option" where
  \<comment> \<open>\<open>int(pref) if pref.isdigit() else None\<close>; \<open>int\<close> may raise\<close>
  "target_height pref =
     (if isdigit pref
      then (case py_int pref of Inl ex \<Rightarrow> Inl ex | Inr n \<Rightarrow> Inr (Some n))
      else Inr None)"

definition truthy_height :: "int option \<Rightarrow> bool" where
  \<comment> \<open>the test \<open>if target_h:\<close>, false for \<open>None\<close> and for \<open>0\<close>\<close>
  "truthy_height t = (case t of None \<Rightarrow> False | Some h \<Rightarrow> h \<noteq> 0)"

definition pick_format :: "format list \<Rightarrow> string \<Rightarrow> pyexc + format option" where
  \<comment> \<open>\<open>_pick_format(formats, pref)\<close>, branch by branch; an exception of line 74 leaves the
      function; \<open>xs[-1]\<close> is \<open>last xs\<close> and \<open>xs[0]\<close> is \<open>hd xs\<close>, each read only where the
      source has established that the list is not empty\<close>
  "pick_format formats pref =
     (let playable = filter playable_format formats;
          mp4s = filter (\<lambda>f. ext f = Some ''mp4'') playable
      in case target_height pref of
           Inl ex \<Rightarrow> Inl ex
         | Inr target_h \<Rightarrow>
             Inr (if mp4s \<noteq> [] then
                    (let sorted_mp4s = sort_key score mp4s
                     in if truthy_height target_h then
                          (let under = filter (\<lambda>f. height_or_0 f \<le> the target_h) sorted_mp4s
                           in if under \<noteq> [] then Some (last under) else Some (hd sorted_mp4s))
                        else Some (last sorted_mp4s))
                  else
                    (let sorted_all = sort_key score playable
                     in if truthy_height target_h then
                          (let under = filter (\<lambda>f. height_or_0 f \<le> the target_h) sorted_all
                           in if under \<noteq> [] then Some (last under)
                              else (if sorted_all \<noteq> [] then Some (hd sorted_all) else None))
                        else (if sorted_all \<noteq> [] then Some (last sorted_all) else None))))"

definition preferred_subset :: "format list \<Rightarrow> format list" where
  \<comment> \<open>the list \<open>_pick_format\<close> chooses from: the playable mp4 formats when there are any,
      otherwise all playable formats\<close>
  "preferred_subset formats =
     (let playable = filter playable_format formats;
          mp4s = filter (\<lambda>f. ext f = Some ''mp4'') playable
      in if mp4s \<noteq> [] then mp4s else playable)"

section \<open>The download handler\<close>

subsection \<open>Configuration, exceptions and the outside world\<close>

text \<open>
  The two limits of the source are the fields of a configuration, so that a property
  can be stated for every ceiling; \<open>default_config\<close> holds the values the source sets.
  \<open>CHUNK\<close> and \<open>TIMEOUT\<close> are arguments of library calls and only shape what those calls
  return, which the environment below supplies.

  What the handler asks of its libraries is an environment: the scheme \<open>urlparse\<close> finds,
  the answer of the resolver, the answer of \<open>requests.get\<close> (an exception, or a status and
  the chunks \<open>iter_content\<close> yields), and the room on the disk. The file system and the
  sequence of the handler's actions are a state that every step returns updated.
\<close>

record config =
  MAX_BYTES :: nat
  MAX_DURATION_SEC :: nat

definition default_config :: config where
  \<comment> \<open>the constants of the source: 300 MiB and ten minutes\<close>
  "default_config = \<lparr>MAX_BYTES = 300 * 1024 * 1024, MAX_DURATION_SEC = 10 * 60\<rparr>"

definition ALLOWED_SCHEMES :: "string list" where
  "ALLOWED_SCHEMES = [''http'', ''https'']"

type_synonym path = nat
type_synonym bytes = "8 word list"

datatype event =
    CookieTemp path      \<comment> \<open>the temporary file of line 110 was created\<close>
  | Extract string       \<comment> \<open>\<open>ydl.extract_info(url, download=False)\<close>\<close>
  | HttpGet string       \<comment> \<open>\<open>requests.get(url, stream=True)\<close>\<close>
  | MediaTemp path       \<comment> \<open>the temporary file of line 159 was created\<close>
  | Write path nat       \<comment> \<open>\<open>tmp.write(chunk)\<close> appended that many bytes\<close>
  | Unlink path          \<comment> \<open>\<open>os.unlink\<close> removed the file\<close>
  | UnlinkFailed path    \<comment> \<open>\<open>os.unlink\<close> found no file and raised\<close>

record world =
  fs :: "path \<rightharpoonup> bytes"     \<comment> \<open>the files that exist, with their contents\<close>
  next_tmp :: path              \<comment> \<open>the name the next temporary file gets\<close>
  trace :: "event list"         \<comment> \<open>what the handler has done so far, oldest first\<close>

datatype chunk_event = Chunk bytes | ReadError
  \<comment> \<open>one step of \<open>r.iter_content\<close>: the next chunk, or an exception of \<open>requests\<close>\<close>

record response =
  status_code :: nat
  body :: "chunk_event list"

datatype info =
  Info (duration: "rat option") (formats: "format list option") (title: "string option")
       (entries: "info list option")

record env =
  urlparse_scheme :: "string \<Rightarrow> string"                 \<comment> \<open>\<open>urlparse(url).scheme\<close>\<close>
  extract_info :: "string \<Rightarrow> bytes option \<Rightarrow> pyexc + info"  \<comment> \<open>the resolver, given the cookies\<close>
  requests_get :: "string \<Rightarrow> pyexc + response"          \<comment> \<open>\<open>requests.get\<close>\<close>
  disk_space :: nat                                     \<comment> \<open>a write beyond it raises \<open>OSError\<close>\<close>

record request =
  form_url :: "string option"
  form_quality :: "string option"
  cookies :: "(string \<times> bytes) option"   \<comment> \<open>the uploaded file: its name and its contents\<close>

record sent =
  sent_path :: path
  download_name :: string
  mimetype :: string
  sent_data :: bytes

subsection \<open>Computations that may raise\<close>

type_synonym 'a io = "world \<Rightarrow> (pyexc + 'a) \<times> world"

definition return :: "'a \<Rightarrow> 'a io" where
  "return x = (\<lambda>w. (Inr x, w))"

definition raise :: "pyexc \<Rightarrow> 'a io" where
  "raise e = (\<lambda>w. (Inl e, w))"

definition abort :: "nat \<Rightarrow> message \<Rightarrow> 'a io" where
  "abort code msg = raise (HTTPException code msg)"

definition bind_io :: "'a io \<Rightarrow> ('a \<Rightarrow> 'b io) \<Rightarrow> 'b io" where
  \<comment> \<open>sequencing: an exception of the first part skips the rest\<close>
  "bind_io m f = (\<lambda>w. case m w of (Inl e, w') \<Rightarrow> (Inl e, w') | (Inr x, w') \<Rightarrow> f x w')"

definition try_except :: "'a io \<Rightarrow> (pyexc \<Rightarrow> bool) \<Rightarrow> 'a io \<Rightarrow> 'a io" where
  \<comment> \<open>\<open>try: m  except <class>: handler\<close>; an exception raised by the handler propagates\<close>
  "try_except m caught handler =
     (\<lambda>w. case m w of
             (Inl e, w') \<Rightarrow> if caught e then handler w' else (Inl e, w')
           | (Inr x, w') \<Rightarrow> (Inr x, w'))"

definition log :: "event \<Rightarrow> unit io" where
  "log ev = (\<lambda>w. (Inr (), w\<lparr>trace := trace w @ [ev]\<rparr>))"

definition cookie_temp :: "bytes \<Rightarrow> path io" where
  \<comment> \<open>lines 110--112: a temporary file that holds the uploaded cookies\<close>
  "cookie_temp content =
     (\<lambda>w. (Inr (next_tmp w),
            w\<lparr>fs := (fs w)(next_tmp w \<mapsto> content), next_tmp := Suc (next_tmp w),
              trace := trace w @ [CookieTemp (next_tmp w)]\<rparr>))"

definition media_temp :: "path io" where
  \<comment> \<open>line 159: \<open>tempfile.NamedTemporaryFile(delete=False)\<close>, an empty file\<close>
  "media_temp =
     (\<lambda>w. (Inr (next_tmp w),
            w\<lparr>fs := (fs w)(next_tmp w \<mapsto> []), next_tmp := Suc (next_tmp w),
              trace := trace w @ [MediaTemp (next_tmp w)]\<rparr>))"

definition os_unlink :: "path \<Rightarrow> unit io" where
  \<comment> \<open>\<open>os.unlink(p)\<close> raises \<open>FileNotFoundError\<close> when there is no such file\<close>
  "os_unlink p =
     (\<lambda>w. case fs w p of
             None \<Rightarrow> (Inl FileNotFoundError, w\<lparr>trace := trace w @ [UnlinkFailed p]\<rparr>)
           | Some _ \<Rightarrow> (Inr (), w\<lparr>fs := (fs w)(p := None), trace := trace w @ [Unlink p]\<rparr>))"

definition tmp_write :: "env \<Rightarrow> path \<Rightarrow> bytes \<Rightarrow> unit io" where
  \<comment> \<open>\<open>tmp.write(chunk)\<close> on the open temporary file; it fails when the disk is full\<close>
  "tmp_write e p chunk =
     (\<lambda>w. case fs w p of
             None \<Rightarrow> (Inl OSError, w)
           | Some old \<Rightarrow>
               if disk_space e < length old + length chunk then (Inl OSError, w)
               else (Inr (), w\<lparr>fs := (fs w)(p \<mapsto> old @ chunk),
                                trace := trace w @ [Write p (length chunk)]\<rparr>))"

definition read_file :: "path \<Rightarrow> bytes io" where
  "read_file p = (\<lambda>w. case fs w p of None \<Rightarrow> (Inl FileNotFoundError, w) | Some d \<Rightarrow> (Inr d, w))"

definition raise_for_status :: "response \<Rightarrow> unit io" where
  \<comment> \<open>\<open>r.raise_for_status()\<close> of \<open>requests\<close>: \<open>HTTPError\<close>, a \<open>RequestException\<close>, for a status
      from 400 to 599 and nothing for any other status\<close>
  "raise_for_status r =
     (if 400 \<le> status_code r \<and> status_code r < 600 then raise RequestException else return ())"

definition http_status :: "pyexc + sent \<Rightarrow> nat" where
  \<comment> \<open>what the client sees: Flask answers an \<open>HTTPException\<close> with its code and any other
      exception that leaves the view with 500\<close>
  "http_status res =
     (case res of Inr _ \<Rightarrow> 200 | Inl (HTTPException code _) \<Rightarrow> code | Inl _ \<Rightarrow> 500)"

subsection \<open>The relay: lines 159 to 177\<close>

fun relay_loop :: "config \<Rightarrow> env \<Rightarrow> path \<Rightarrow> chunk_event list \<Rightarrow> nat \<Rightarrow> unit io" where
  \<comment> \<open>the \<open>for\<close> loop; the last argument is \<open>written\<close>\<close>
  "relay_loop cfg e p [] written = return ()"
| "relay_loop cfg e p (ReadError # rest) written = raise RequestException"
| "relay_loop cfg e p (Chunk chunk # rest) written =
     (if chunk = [] then relay_loop cfg e p rest written
      else if written + length chunk > MAX_BYTES cfg then
        bind_io (os_unlink p) (\<lambda>_. abort 413 Exceeded_Limit)
      else bind_io (tmp_write e p chunk) (\<lambda>_. relay_loop cfg e p rest (written + length chunk)))"

definition stream_to_temp :: "config \<Rightarrow> env \<Rightarrow> response \<Rightarrow> path io" where
  \<comment> \<open>the temporary file, the loop inside \<open>try\<close>, and the handler of \<open>except Exception\<close>,
      which catches every exception, the one of \<open>abort(413, ...)\<close> included\<close>
  "stream_to_temp cfg e r =
     bind_io media_temp (\<lambda>tmp_path.
     bind_io (try_except (relay_loop cfg e tmp_path (body r) 0) (\<lambda>_. True)
                (bind_io (os_unlink tmp_path) (\<lambda>_. abort 500 Error_During_Download)))
       (\<lambda>_. return tmp_path))"

subsection \<open>The handler\<close>

definition str_or :: "string option \<Rightarrow> string \<Rightarrow> string" where
  \<comment> \<open>\<open>x or d\<close> for a string that may be missing\<close>
  "str_or x d = (case x of None \<Rightarrow> d | Some s \<Rightarrow> if s = [] then d else s)"

definition save_cookies :: "request \<Rightarrow> path option io" where
  \<comment> \<open>lines 108--112\<close>
  "save_cookies req =
     (case cookies req of
        None \<Rightarrow> return None
      | Some (filename, content) \<Rightarrow>
          if filename = [] then return None
          else bind_io (cookie_temp content) (\<lambda>p. return (Some p)))"

definition unlink_cookies :: "path option \<Rightarrow> unit io" where
  \<comment> \<open>\<open>if cookiefile: os.unlink(cookiefile)\<close>\<close>
  "unlink_cookies cookiefile = (case cookiefile of None \<Rightarrow> return () | Some p \<Rightarrow> os_unlink p)"

definition ydl_extract :: "env \<Rightarrow> string \<Rightarrow> path option \<Rightarrow> info io" where
  \<comment> \<open>lines 124--125; the resolver reads the cookie file when there is one\<close>
  "ydl_extract e u cookiefile =
     bind_io (log (Extract u)) (\<lambda>_.
     bind_io (case cookiefile of None \<Rightarrow> return None
              | Some p \<Rightarrow> bind_io (read_file p) (\<lambda>d. return (Some d))) (\<lambda>jar.
     (case extract_info e u jar of Inl ex \<Rightarrow> raise ex | Inr i \<Rightarrow> return i)))"

definition first_entry :: "info \<Rightarrow> info" where
  \<comment> \<open>lines 134--135: a playlist is replaced by its first entry\<close>
  "first_entry i = (case entries i of Some (e # _) \<Rightarrow> e | _ \<Rightarrow> i)"

definition est_size :: "format \<Rightarrow> int option" where
  \<comment> \<open>\<open>chosen.get("filesize") or chosen.get("filesize_approx")\<close>\<close>
  "est_size f =
     (case filesize f of
        None \<Rightarrow> filesize_approx f
      | Some n \<Rightarrow> if n \<noteq> 0 then Some n else filesize_approx f)"

definition fetch :: "env \<Rightarrow> string \<Rightarrow> response io" where
  \<comment> \<open>lines 153--157\<close>
  "fetch e u =
     try_except
       (bind_io (log (HttpGet u)) (\<lambda>_.
        bind_io (case requests_get e u of Inl ex \<Rightarrow> raise ex | Inr r \<Rightarrow> return r) (\<lambda>r.
        bind_io (raise_for_status r) (\<lambda>_. return r))))
       (\<lambda>ex. ex = RequestException)
       (abort 504 Error_Fetching)"

definition resolve :: "env \<Rightarrow> request \<Rightarrow> (info \<times> string) io" where
  \<comment> \<open>lines 100 to 135: the form fields, the URL check, the cookies, the resolver and
      the playlist rule; the result is \<open>info\<close> and \<open>quality\<close>\<close>
  "resolve e req =
     (let u = strip (str_or (form_url req) []);
          quality = lower (strip (str_or (form_quality req) ''best''))
      in
      bind_io (if u = [] \<or> lower (urlparse_scheme e u) \<notin> set ALLOWED_SCHEMES
               then abort 400 Invalid_URL else return ()) (\<lambda>_.
      bind_io (save_cookies req) (\<lambda>cookiefile.
      bind_io (try_except (ydl_extract e u cookiefile) (\<lambda>ex. ex = DownloadError)
                 (bind_io (unlink_cookies cookiefile) (\<lambda>_. abort 400 Could_Not_Process)))
        (\<lambda>info0.
      bind_io (unlink_cookies cookiefile) (\<lambda>_.
      return (first_entry info0, quality))))))"

definition choose_format :: "config \<Rightarrow> info \<Rightarrow> string \<Rightarrow> format io" where
  \<comment> \<open>lines 137 to 150: the duration check, the format, the check of its URL (an empty
      dictionary is falsy, and it has no URL either) and the check of its estimated size;
      \<open>_pick_format(None, ...)\<close> raises \<open>TypeError\<close>, and an exception of \<open>_pick_format\<close>
      leaves the view\<close>
  "choose_format cfg i quality =
     (let d = (case duration i of None \<Rightarrow> 0 | Some x \<Rightarrow> x)
      in
      bind_io (if d \<noteq> 0 \<and> d > of_nat (MAX_DURATION_SEC cfg)
               then abort 413 (Video_Too_Long d) else return ()) (\<lambda>_.
      bind_io (case formats i of None \<Rightarrow> raise TypeError
               | Some fmts \<Rightarrow>
                   (case pick_format fmts quality of
                      Inl ex \<Rightarrow> raise ex | Inr chosen \<Rightarrow> return chosen)) (\<lambda>chosen.
      (case chosen of
         None \<Rightarrow> abort 415 No_Format
       | Some c \<Rightarrow>
           if str_or (url c) [] = [] then abort 415 No_Format
           else
             bind_io (case est_size c of
                        None \<Rightarrow> return ()
                      | Some n \<Rightarrow> if n \<noteq> 0 \<and> n > int (MAX_BYTES cfg)
                                  then abort 413 (File_Too_Large n) else return ()) (\<lambda>_.
             return c)))))"

definition download :: "config \<Rightarrow> env \<Rightarrow> request \<Rightarrow> sent io" where
  \<comment> \<open>the view function \<open>download\<close>, followed by the \<open>_cleanup\<close> it registers, which
      runs once the view has returned the response of \<open>send_file\<close>\<close>
  "download cfg e req =
     bind_io (resolve e req) (\<lambda>(i, quality).
     bind_io (choose_format cfg i quality) (\<lambda>chosen.
     bind_io (fetch e (the (url chosen))) (\<lambda>r.
     bind_io (stream_to_temp cfg e r) (\<lambda>tmp_path.
     bind_io (read_file tmp_path) (\<lambda>data.
     bind_io (try_except (os_unlink tmp_path) (\<lambda>_. True) (return ())) (\<lambda>_.
     return \<lparr>sent_path = tmp_path, download_name = safe_filename (title i),
             mimetype = ''video/mp4'', sent_data = data\<rparr>))))))"

subsection \<open>Reading a trace\<close>

definition events_since :: "world \<Rightarrow> world \<Rightarrow> event list" where
  \<comment> \<open>the events added between an earlier world and a later one\<close>
  "events_since w w' = drop (length (trace w)) (trace w')"

fun disk_usage :: "path \<Rightarrow> event list \<Rightarrow> nat" where
  \<comment> \<open>the bytes the events have written to a file\<close>
  "disk_usage p [] = 0"
| "disk_usage p (Write q n # evs) = (if q = p then n else 0) + disk_usage p evs"
| "disk_usage p (_ # evs) = disk_usage p evs"

fun total_bytes :: "chunk_event list \<Rightarrow> nat" where
  \<comment> \<open>the bytes of all the chunks of a body\<close>
  "total_bytes [] = 0"
| "total_bytes (Chunk c # rest) = length c + total_bytes rest"
| "total_bytes (ReadError # rest) = total_bytes rest"

fun http_gets :: "event list \<Rightarrow> string list" where
  \<comment> \<open>the URLs fetched, in order\<close>
  "http_gets [] = []"
| "http_gets (HttpGet u # evs) = u # http_gets evs"
| "http_gets (_ # evs) = http_gets evs"

fun media_temps :: "event list \<Rightarrow> path list" where
  \<comment> \<open>the temporary media files created, in order\<close>
  "media_temps [] = []"
| "media_temps (MediaTemp p # evs) = p # media_temps evs"
| "media_temps (_ # evs) = media_temps evs"

definition silent :: "'a io \<Rightarrow> bool" where
  \<comment> \<open>a computation that only adds events, none of them a fetch or a new media file\<close>
  "silent m = (\<forall>w. \<exists>evs. trace (snd (m w)) = trace w @ evs \<and> http_gets evs = [] \<and>
                     media_temps evs = [])"

section \<open>The sanitisation as a specification\<close>

definition spec_has_video_ext :: "string \<Rightarrow> bool" where
  \<comment> \<open>the name ends in a dot and one of the four extensions\<close>
  "spec_has_video_ext s = list_ex (\<lambda>e. suffix (CHR ''.'' # e) s) video_exts"

definition spec_safe_filename :: "string \<Rightarrow> string" where
  \<comment> \<open>the sanitisation as the specification words it: every character outside the set
      becomes an underscore, and \<open>.mp4\<close> is appended unless the result ends in a recognised
      extension\<close>
  "spec_safe_filename t =
     (let r = map (\<lambda>c. if allowed c then c else CHR ''_'') t
      in if spec_has_video_ext r then r else r @ ''.mp4'')"

text \<open>The maximal runs of elements that agree on a predicate, in order.\<close>

function group_runs :: "('a \<Rightarrow> bool) \<Rightarrow> 'a list \<Rightarrow> 'a list list" where
  "group_runs P [] = []"
| "group_runs P (x # xs) =
     (x # takeWhile (\<lambda>y. P y = P x) xs) # group_runs P (dropWhile (\<lambda>y. P y = P x) xs)"
  by pat_completeness auto
termination
  by (relation "measure (\<lambda>(P, xs). length xs)") (auto simp: le_imp_less_Suc length_dropWhile_le)

definition squeeze :: "string \<Rightarrow> string" where
  \<comment> \<open>every maximal run of characters outside the set becomes one underscore\<close>
  "squeeze t = concat (map (\<lambda>run. if allowed (hd run) then run else ''_'') (group_runs allowed t))"

definition amended_safe_filename :: "string option \<Rightarrow> string" where
  \<comment> \<open>the sanitisation in words that fit the code: the default for a missing or empty
      title, white space stripped at both ends, runs squeezed, and the extension looked
      for in any letter case\<close>
  "amended_safe_filename name =
     (let t = strip (case name of None \<Rightarrow> ''video'' | Some n \<Rightarrow> if n = [] then ''video'' else n);
          r = squeeze t
      in if spec_has_video_ext (lower r) then r else r @ ''.mp4'')"

section \<open>Example inputs\<close>

definition example_format :: "string \<Rightarrow> int \<Rightarrow> format" where
  "example_format e h =
     \<lparr>ext = Some e, vcodec = Some ''avc1'', acodec = Some ''mp4a'', height = Some h, tbr = None,
      filesize = None, filesize_approx = None, url = Some ''https://cdn.example/v''\<rparr>"

definition example_info :: "rat \<Rightarrow> info" where
  "example_info d = Info (Some d) (Some [example_format ''mp4'' 720]) (Some ''My clip'') None"

definition example_env :: "rat \<Rightarrow> pyexc + response \<Rightarrow> env" where
  \<comment> \<open>a resolver that reports one mp4 format of a video of the given duration, and a
      media server that answers as given\<close>
  "example_env d answer =
     \<lparr>urlparse_scheme = (\<lambda>_. ''https''), extract_info = (\<lambda>_ _. Inr (example_info d)),
      requests_get = (\<lambda>_. answer), disk_space = 1000000000\<rparr>"

definition example_request :: request where
  "example_request =
     \<lparr>form_url = Some ''https://video.example/watch'', form_quality = Some ''best'',
      cookies = None\<rparr>"

definition example_world :: world where
  "example_world = \<lparr>fs = Map.empty, next_tmp = 0, trace = []\<rparr>"

definition mebibyte :: bytes where
  "mebibyte = replicate (1024 * 1024) 0"

definition oversized_response :: response where
  \<comment> \<open>301 chunks of one mebibyte: one chunk more than \<open>MAX_BYTES\<close> of the source allows\<close>
  "oversized_response = \<lparr>status_code = 200, body = replicate 301 (Chunk mebibyte)\<rparr>"

section \<open>Properties of the format selector\<close>

lemma sorted_last_max: "sorted (map f xs) \<Longrightarrow> x \<in> set xs \<Longrightarrow> f x \<le> f (last xs)"
  by (induction xs) (auto split: if_splits)

lemma sorted_hd_min: "sorted (map f xs) \<Longrightarrow> x \<in> set xs \<Longrightarrow> f (hd xs) \<le> f x"
  by (cases xs) auto

lemma sort_key_eq_Nil: "(sort_key f xs = []) = (xs = [])"
  using length_sort[of f xs] by (metis length_0_conv)

lemma score_le_height: "score f \<le> score g \<Longrightarrow> height_or_0 f \<le> height_or_0 g"
  by (auto simp: score_def less_eq_prod_def)

text \<open>
  When line 74 raises, so does the selector; when it yields a target, the two branches
  of the source are one choice from the sorted preferred subset.
\<close>

lemma pick_format_raises: "target_height pref = Inl ex \<Longrightarrow> pick_format cands pref = Inl ex"
  by (simp add: pick_format_def Let_def)

lemma pick_format_unfold:
  assumes "target_height pref = Inr t"
  shows "pick_format cands pref =
     Inr (let S = sort_key score (preferred_subset cands)
          in if S = [] then None
             else if truthy_height t then
               (let under = filter (\<lambda>f. height_or_0 f \<le> the t) S
                in if under \<noteq> [] then Some (last under) else Some (hd S))
             else Some (last S))"
  using assms by (simp add: pick_format_def preferred_subset_def Let_def sort_key_eq_Nil)

lemma preferred_subset_subset: "set (preferred_subset cands) \<subseteq> {f \<in> set cands. playable_format f}"
  by (auto simp: preferred_subset_def Let_def)

lemma preferred_subset_Nil: "preferred_subset cands = [] \<longleftrightarrow> filter playable_format cands = []"
  by (auto simp: preferred_subset_def Let_def filter_empty_conv)

text \<open>
  Claim C1, as amended. For a digit-string preference with a non-zero value \<open>H\<close>, the
  selector chooses from the playable mp4 formats when there are any and from all
  playable formats otherwise. When that list is not empty, it returns one of its
  members; the height (or zero) of the result is at most \<open>H\<close> whenever some member of
  that list has a height at most \<open>H\<close>, and otherwise it is the minimum height of that
  list.
\<close>

theorem pick_format_target:
  assumes "target_height pref = Inr (Some H)" and "H \<noteq> 0" and "preferred_subset cands \<noteq> []"
  shows "\<exists>c. pick_format cands pref = Inr (Some c) \<and> c \<in> set (preferred_subset cands) \<and>
           (if \<exists>f \<in> set (preferred_subset cands). height_or_0 f \<le> H
            then height_or_0 c \<le> H
            else \<forall>f \<in> set (preferred_subset cands). height_or_0 c \<le> height_or_0 f)"
proof -
  define S where "S = sort_key score (preferred_subset cands)"
  define under where "under = filter (\<lambda>f. height_or_0 f \<le> H) S"
  have S_set: "set S = set (preferred_subset cands)" and S_sorted: "sorted (map score S)"
    and S_ne: "S \<noteq> []"
    using assms(3) by (auto simp: S_def sort_key_eq_Nil)
  have pick: "pick_format cands pref =
                Inr (if under \<noteq> [] then Some (last under) else Some (hd S))"
    using assms(2) S_ne
    by (simp add: pick_format_unfold[OF assms(1)] Let_def truthy_height_def S_def under_def)
  show ?thesis
  proof (cases "under = []")
    case True
    then have none: "\<not> (\<exists>f \<in> set (preferred_subset cands). height_or_0 f \<le> H)"
      unfolding under_def S_set[symmetric] by (auto simp: filter_empty_conv)
    have "\<forall>f \<in> set S. height_or_0 (hd S) \<le> height_or_0 f"
      using sorted_hd_min[OF S_sorted] score_le_height by blast
    moreover have "hd S \<in> set S" using S_ne by simp
    ultimately show ?thesis using True pick none S_set by auto
  next
    case False
    then have "last under \<in> set under" by simp
    then have "last under \<in> set S" "height_or_0 (last under) \<le> H"
      by (auto simp: under_def)
    moreover have "\<exists>f \<in> set (preferred_subset cands). height_or_0 f \<le> H"
      using calculation S_set by auto
    ultimately show ?thesis using False pick S_set by auto
  qed
qed

lemma target_height_best: "target_height ''best'' = Inr None"
  by (simp add: target_height_def isdigit_def isdigit_char_def is_digit_def)

lemma pick_format_untargeted:
  assumes "target_height pref = Inr t" and "\<not> truthy_height t"
  shows "pick_format cands pref =
           Inr (if preferred_subset cands = [] then None
                else Some (last (sort_key score (preferred_subset cands))))"
  using assms(2) by (simp add: pick_format_unfold[OF assms(1)] Let_def sort_key_eq_Nil)

lemma pick_format_best_preferred:
  assumes "filter playable_format cands \<noteq> []"
  shows "\<exists>c. pick_format cands ''best'' = Inr (Some c) \<and> c \<in> set (preferred_subset cands) \<and>
           (\<forall>f \<in> set (preferred_subset cands). score f \<le> score c)"
proof -
  define S where "S = sort_key score (preferred_subset cands)"
  have ne: "preferred_subset cands \<noteq> []"
    using assms by (simp add: preferred_subset_Nil)
  have S_set: "set S = set (preferred_subset cands)"
    by (simp add: S_def)
  have S_sorted: "sorted (map score S)"
    by (simp add: S_def)
  have S_ne: "S \<noteq> []"
    using ne by (simp add: S_def sort_key_eq_Nil)
  have nt: "\<not> truthy_height None"
    by (simp add: truthy_height_def)
  have pick: "pick_format cands ''best'' = Inr (Some (last S))"
    unfolding pick_format_untargeted[OF target_height_best nt] S_def using ne by simp
  have "last S \<in> set (preferred_subset cands)"
    using S_ne S_set last_in_set by blast
  moreover have "\<forall>f \<in> set (preferred_subset cands). score f \<le> score (last S)"
    using sorted_last_max[OF S_sorted] S_set by blast
  ultimately show ?thesis using pick by blast
qed

text \<open>
  Claim C4. For preference \<open>best\<close> and a candidate list with at least one playable
  format, the selector returns a candidate whose key (height or zero, bit rate or zero)
  is maximal among the playable mp4 formats if there are any, and otherwise maximal
  among all playable formats.
\<close>

theorem pick_format_best:
  assumes "filter playable_format cands \<noteq> []"
  shows "\<exists>c. pick_format cands ''best'' = Inr (Some c) \<and>
           (let playable = filter playable_format cands;
                mp4s = filter (\<lambda>f. ext f = Some ''mp4'') playable
            in if mp4s \<noteq> [] then c \<in> set mp4s \<and> (\<forall>f \<in> set mp4s. score f \<le> score c)
               else c \<in> set playable \<and> (\<forall>f \<in> set playable. score f \<le> score c))"
proof (cases "filter (\<lambda>f. ext f = Some ''mp4'') (filter playable_format cands) = []")
  case True
  then have "preferred_subset cands = filter playable_format cands"
    by (simp add: preferred_subset_def Let_def)
  with pick_format_best_preferred[OF assms] True show ?thesis
    by (simp add: Let_def)
next
  case False
  then have "preferred_subset cands = filter (\<lambda>f. ext f = Some ''mp4'') (filter playable_format cands)"
    by (simp add: preferred_subset_def Let_def)
  with pick_format_best_preferred[OF assms] False show ?thesis
    by (simp add: Let_def)
qed

text \<open>
  Where line 74 does not raise, a candidate list without a playable format gives none;
  and whatever the selector returns is a playable candidate of the list.
\<close>

lemma pick_format_no_playable:
  assumes "target_height pref = Inr t" and "filter playable_format cands = []"
  shows "pick_format cands pref = Inr None"
  using assms(2)
  by (simp add: pick_format_unfold[OF assms(1)] preferred_subset_Nil Let_def sort_key_eq_Nil)

lemma pick_format_chosen_playable:
  assumes "pick_format cands pref = Inr (Some c)"
  shows "c \<in> set cands \<and> playable_format c"
proof -
  define S where "S = sort_key score (preferred_subset cands)"
  have S_set: "set S = set (preferred_subset cands)" by (simp add: S_def)
  from assms obtain t where t: "target_height pref = Inr t"
    by (cases "target_height pref") (simp_all add: pick_format_raises)
  note unfold = pick_format_unfold[OF t, of cands, folded S_def]
  have "S \<noteq> []" using assms unfolding unfold by (auto simp: Let_def split: if_splits)
  then have "hd S \<in> set S" "last S \<in> set S" by auto
  moreover have "last (filter P S) \<in> set S" if "filter P S \<noteq> []" for P
    using last_in_set[OF that] by auto
  ultimately have "c \<in> set S" using assms unfolding unfold
    by (auto simp: Let_def split: if_splits)
  then show ?thesis using S_set preferred_subset_subset by auto
qed

text \<open>
  Claim C5, on the code. The preference made of the one character superscript two
  passes \<open>isdigit\<close> and is unchanged by \<open>strip\<close> and \<open>lower\<close>, so the handler passes it on
  as it is; \<open>int\<close> raises \<open>ValueError\<close> on it, and the selector raises on the empty
  candidate list instead of returning none, as it does for the preference \<open>best\<close>.
\<close>

theorem pick_format_superscript_raises:
  "isdigit [CHR 0xB2] \<and> lower (strip [CHR 0xB2]) = [CHR 0xB2] \<and>
   pick_format [] [CHR 0xB2] = Inl ValueError \<and> pick_format [] ''best'' = Inr None"
proof -
  have d: "isdigit [CHR 0xB2]"
    by (simp add: isdigit_def isdigit_char_def is_digit_def)
  have n: "lower (strip [CHR 0xB2]) = [CHR 0xB2]"
    by (simp add: strip_def isspace_def lower_def lower_char_def)
  have "py_int [CHR 0xB2] = Inl ValueError"
    by (simp add: py_int_def is_digit_def)
  with d have "target_height [CHR 0xB2] = Inl ValueError"
    by (simp add: target_height_def)
  then have r: "pick_format [] [CHR 0xB2] = Inl ValueError"
    by (rule pick_format_raises)
  have b: "pick_format [] ''best'' = Inr None"
    by (rule pick_format_no_playable[OF target_height_best]) simp
  from d n r b show ?thesis by blast
qed

text \<open>
  Claim C10. A preference made of digits whose value is zero, such as \<open>0\<close> or \<open>00\<close>,
  selects exactly what the preference \<open>best\<close> selects, for every candidate list.
\<close>

theorem pick_format_zero:
  assumes "isdigit pref" and "py_int pref = Inr 0"
  shows "pick_format cands pref = pick_format cands ''best''"
proof -
  have t: "target_height pref = Inr (Some 0)"
    using assms by (simp add: target_height_def)
  have a: "\<not> truthy_height (Some 0)"
    by (simp add: truthy_height_def)
  have b: "\<not> truthy_height None"
    by (simp add: truthy_height_def)
  show ?thesis
    unfolding pick_format_untargeted[OF t a] pick_format_untargeted[OF target_height_best b]
    by (rule refl)
qed

lemma example_format_simps:
  "ext (example_format e h) = Some e"
  "playable_format (example_format e h)"
  "height_or_0 (example_format e h) = h"
  "score (example_format e h) = (h, 0)"
  by (simp_all add: example_format_def playable_format_def height_or_0_def score_def tbr_or_0_def)

lemma target_height_720: "target_height ''720'' = Inr (Some 720)"
  by (simp add: target_height_def isdigit_def isdigit_char_def is_digit_def py_int_def
      int_of_digits_def)

lemma target_height_480: "target_height ''480'' = Inr (Some 480)"
  by (simp add: target_height_def isdigit_def isdigit_char_def is_digit_def py_int_def
      int_of_digits_def)

text \<open>
  Claim C1 as stated speaks of all playable candidates. With a playable webm of height
  480 and a playable mp4 of height 1080, preference 720 selects the mp4 of height 1080
  although the webm is within the cap; with a webm of height 800 in place of the first,
  no playable candidate is within the cap and the selected mp4 is not the lowest one.
\<close>

theorem pick_format_target_counterexample:
  "playable_format (example_format ''webm'' 480) \<and>
   height_or_0 (example_format ''webm'' 480) \<le> 720 \<and>
   pick_format [example_format ''webm'' 480, example_format ''mp4'' 1080] ''720''
     = Inr (Some (example_format ''mp4'' 1080)) \<and>
   \<not> height_or_0 (example_format ''mp4'' 1080) \<le> 720 \<and>
   filter (\<lambda>f. playable_format f \<and> height_or_0 f \<le> 720)
     [example_format ''webm'' 800, example_format ''mp4'' 1080] = [] \<and>
   pick_format [example_format ''webm'' 800, example_format ''mp4'' 1080] ''720''
     = Inr (Some (example_format ''mp4'' 1080)) \<and>
   playable_format (example_format ''webm'' 800) \<and>
   height_or_0 (example_format ''webm'' 800) < height_or_0 (example_format ''mp4'' 1080)"
  by (simp add: pick_format_def Let_def example_format_simps target_height_720 truthy_height_def)

theorem pick_format_target_witness:
  "target_height ''480'' = Inr (Some 480) \<and> (480::int) \<noteq> 0 \<and>
   preferred_subset [example_format ''mp4'' 1080, example_format ''mp4'' 480,
                     example_format ''webm'' 720] \<noteq> [] \<and>
   (\<exists>c. pick_format [example_format ''mp4'' 1080, example_format ''mp4'' 480,
                      example_format ''webm'' 720] ''480'' = Inr (Some c) \<and>
        height_or_0 c \<le> 480)"
proof -
  let ?cs = "[example_format ''mp4'' 1080, example_format ''mp4'' 480, example_format ''webm'' 720]"
  have ps: "preferred_subset ?cs = [example_format ''mp4'' 1080, example_format ''mp4'' 480]"
    by (simp add: preferred_subset_def Let_def example_format_simps)
  have ne: "preferred_subset ?cs \<noteq> []"
    by (simp add: ps)
  have nz: "(480::int) \<noteq> 0" by simp
  from pick_format_target[OF target_height_480 nz ne]
  obtain c where c: "pick_format ?cs ''480'' = Inr (Some c)"
    and h: "if \<exists>f \<in> set (preferred_subset ?cs). height_or_0 f \<le> 480
            then height_or_0 c \<le> 480
            else \<forall>f \<in> set (preferred_subset ?cs). height_or_0 c \<le> height_or_0 f"
    by blast
  have "\<exists>f \<in> set (preferred_subset ?cs). height_or_0 f \<le> 480"
    by (simp add: ps example_format_simps)
  with h have "height_or_0 c \<le> 480" by simp
  with c target_height_480 ne nz show ?thesis by blast
qed

theorem pick_format_best_witness:
  "filter playable_format [example_format ''webm'' 1080, example_format ''mp4'' 480] \<noteq> [] \<and>
   pick_format [example_format ''webm'' 1080, example_format ''mp4'' 480] ''best''
     = Inr (Some (example_format ''mp4'' 480))"
proof -
  let ?cs = "[example_format ''webm'' 1080, example_format ''mp4'' 480]"
  have ne: "filter playable_format ?cs \<noteq> []"
    by (simp add: example_format_simps)
  have mp4s: "filter (\<lambda>f. ext f = Some ''mp4'') (filter playable_format ?cs) = [example_format ''mp4'' 480]"
    by (simp add: example_format_simps)
  from pick_format_best[OF ne] obtain c where c: "pick_format ?cs ''best'' = Inr (Some c)"
    and m: "let playable = filter playable_format ?cs;
                mp4s = filter (\<lambda>f. ext f = Some ''mp4'') playable
            in if mp4s \<noteq> [] then c \<in> set mp4s \<and> (\<forall>f \<in> set mp4s. score f \<le> score c)
               else c \<in> set playable \<and> (\<forall>f \<in> set playable. score f \<le> score c)"
    by blast
  from m have "c = example_format ''mp4'' 480"
    unfolding Let_def mp4s by simp
  with c ne show ?thesis by blast
qed

lemma isdigit_00: "isdigit ''00''"
  by (simp add: isdigit_def isdigit_char_def is_digit_def)

lemma py_int_00: "py_int ''00'' = Inr 0"
  by (simp add: py_int_def is_digit_def int_of_digits_def)

theorem pick_format_zero_witness:
  "isdigit ''00'' \<and> py_int ''00'' = Inr 0 \<and>
   pick_format [example_format ''mp4'' 480, example_format ''mp4'' 1080] ''00''
     = pick_format [example_format ''mp4'' 480, example_format ''mp4'' 1080] ''best''"
  using pick_format_zero[OF isdigit_00 py_int_00] isdigit_00 py_int_00 by blast

section \<open>Properties of the filename sanitisation\<close>

lemma allowed_not_space: "allowed c \<Longrightarrow> \<not> isspace c"
  by (auto simp: allowed_def isspace_def is_upper_def is_lower_def is_digit_def Let_def)

lemma allowed_cases:
  "allowed c \<longleftrightarrow> is_upper c \<or> is_lower c \<or> is_digit c \<or> c = CHR ''.'' \<or> c = CHR ''_'' \<or> c = CHR ''-''"
  by (simp add: allowed_def)

lemma lower_char_changed:
  "lower_char c \<noteq> c \<Longrightarrow> (of_char (lower_char c) :: nat) \<ge> 97 \<and> (of_char c :: nat) \<ge> 65"
  by (auto simp: lower_char_def Let_def split: if_splits)

lemma lower_char_newline: "allowed c \<Longrightarrow> lower_char c \<noteq> CHR 0x0A"
proof (cases "lower_char c = c")
  case True
  assume "allowed c"
  then have "c \<noteq> CHR 0x0A"
    by (auto simp: allowed_def is_upper_def is_lower_def is_digit_def Let_def)
  with True show ?thesis by simp
next
  case False
  then have "(of_char (lower_char c) :: nat) \<ge> 97"
    by (simp add: lower_char_changed)
  then show ?thesis by auto
qed

lemma lower_char_dot: "lower_char c = CHR ''.'' \<longleftrightarrow> c = CHR ''.''"
proof (cases "lower_char c = c")
  case True
  then show ?thesis by simp
next
  case False
  then have "(of_char (lower_char c) :: nat) \<ge> 97" "(of_char c :: nat) \<ge> 65"
    by (simp_all add: lower_char_changed)
  then show ?thesis by auto
qed

lemma re_sub_unsafe_allowed: "list_all allowed s \<Longrightarrow> re_sub_unsafe s = s"
  by (induction s) simp_all

lemma allowed_underscore: "allowed (CHR ''_'')"
  by (simp add: allowed_def)

lemma re_sub_unsafe_output: "list_all allowed (re_sub_unsafe s)"
  by (induction s rule: re_sub_unsafe.induct) (simp_all add: allowed_underscore)

lemma dropWhile_id: "list_all (\<lambda>c. \<not> P c) s \<Longrightarrow> dropWhile P s = s"
  by (cases s) simp_all

lemma strip_id: "list_all (\<lambda>c. \<not> isspace c) s \<Longrightarrow> strip s = s"
proof -
  assume a: "list_all (\<lambda>c. \<not> isspace c) s"
  then have "list_all (\<lambda>c. \<not> isspace c) (rev s)" by (simp add: list_all_iff)
  then show ?thesis using a by (simp add: strip_def dropWhile_id)
qed

lemma strip_allowed: "list_all allowed s \<Longrightarrow> strip s = s"
  by (rule strip_id) (auto simp: list_all_iff allowed_not_space)

lemma re_search_ext_append: "re_search_ext s \<Longrightarrow> re_search_ext (p @ s)"
  by (induction p) simp_all

lemma lower_mp4: "lower ''mp4'' = ''mp4''"
  by (simp add: lower_def lower_char_def)

lemma re_search_ext_mp4: "re_search_ext ''.mp4''"
  by (simp add: ext_match_here_def video_exts_def lower_mp4)

lemma allowed_dot_mp4: "list_all allowed ''.mp4''"
  by (simp add: allowed_def is_lower_def is_digit_def)

lemma safe_filename_props:
  "list_all allowed (safe_filename name) \<and> re_search_ext (safe_filename name) \<and>
   safe_filename name \<noteq> []"
proof -
  define name2 where
    "name2 = re_sub_unsafe (strip (case name of None \<Rightarrow> ''video'' | Some n \<Rightarrow> if n = [] then ''video'' else n))"
  have r: "safe_filename name = (if \<not> re_search_ext name2 then name2 @ ''.mp4'' else name2)"
    by (simp add: safe_filename_def name2_def Let_def)
  have a: "list_all allowed name2"
    by (simp add: name2_def re_sub_unsafe_output)
  show ?thesis
  proof (cases "re_search_ext name2")
    case True
    then have "name2 \<noteq> []" by auto
    with True a r show ?thesis by simp
  next
    case False
    have "re_search_ext (name2 @ ''.mp4'')"
      by (rule re_search_ext_append) (rule re_search_ext_mp4)
    moreover have "list_all allowed (name2 @ ''.mp4'')"
      using a allowed_dot_mp4 by simp
    ultimately show ?thesis using False r by simp
  qed
qed

text \<open>
  Claim C9. Sanitising a sanitised name changes nothing:
  \<open>_safe_filename(_safe_filename(s))\<close> is \<open>_safe_filename(s)\<close> for every input, the missing
  title included.
\<close>

theorem safe_filename_idempotent:
  "safe_filename (Some (safe_filename name)) = safe_filename name"
proof -
  define r where "r = safe_filename name"
  have a: "list_all allowed r" and e: "re_search_ext r" and n: "r \<noteq> []"
    using safe_filename_props[of name] by (simp_all add: r_def)
  have "safe_filename (Some r) = (if \<not> re_search_ext (re_sub_unsafe (strip r)) then re_sub_unsafe (strip r) @ ''.mp4'' else re_sub_unsafe (strip r))"
    using n by (simp add: safe_filename_def Let_def)
  also have "\<dots> = r"
    using a e by (simp add: strip_allowed re_sub_unsafe_allowed)
  finally show ?thesis by (simp add: r_def)
qed


lemma squeeze_Nil: "squeeze [] = []"
  by (simp add: squeeze_def)

lemma squeeze_allowed: "allowed c \<Longrightarrow> squeeze (c # cs) = c # takeWhile allowed cs @ squeeze (dropWhile allowed cs)"
  by (simp add: squeeze_def)

lemma squeeze_unsafe:
  "\<not> allowed c \<Longrightarrow> squeeze (c # cs) = CHR ''_'' # squeeze (dropWhile (\<lambda>d. \<not> allowed d) cs)"
  by (simp add: squeeze_def)

lemma squeeze_split: "squeeze cs = takeWhile allowed cs @ squeeze (dropWhile allowed cs)"
  by (cases cs) (simp_all add: squeeze_Nil squeeze_allowed)

lemma re_sub_unsafe_squeeze: "re_sub_unsafe t = squeeze t"
proof (induction t rule: re_sub_unsafe.induct)
  case 1
  show ?case by (simp add: squeeze_Nil)
next
  case (2 c cs)
  show ?case
  proof (cases "allowed c")
    case True
    with 2 have "re_sub_unsafe (c # cs) = c # squeeze cs" by simp
    also have "\<dots> = squeeze (c # cs)"
      using True squeeze_split[of cs] by (simp add: squeeze_allowed)
    finally show ?thesis .
  next
    case False
    with 2 show ?thesis by (simp add: squeeze_unsafe)
  qed
qed

lemma lower_append: "lower (a @ b) = lower a @ lower b"
  by (simp add: lower_def)

lemma lower_Cons: "lower (c # cs) = lower_char c # lower cs"
  by (simp add: lower_def)

lemma lower_no_newline: "list_all allowed t \<Longrightarrow> CHR 0x0A \<notin> set (lower t)"
proof (induction t)
  case Nil
  show ?case by (simp add: lower_def)
next
  case (Cons c t)
  then have "lower_char c \<noteq> CHR 0x0A" by (simp add: lower_char_newline)
  with Cons show ?case by (auto simp: lower_Cons)
qed

lemma ext_match_here_allowed:
  assumes "list_all allowed s"
  shows "ext_match_here s \<longleftrightarrow> (\<exists>e \<in> set video_exts. lower s = CHR ''.'' # e)"
proof (cases s)
  case Nil
  then show ?thesis by (simp add: ext_match_here_def lower_def)
next
  case (Cons c r)
  with assms have "CHR 0x0A \<notin> set (lower r)" by (simp add: lower_no_newline)
  then have "lower r \<noteq> e @ [CHR 0x0A]" for e by auto
  then show ?thesis
    using Cons by (auto simp: ext_match_here_def list_ex_iff lower_Cons lower_char_dot)
qed

lemma re_search_ext_allowed:
  "list_all allowed r \<Longrightarrow> re_search_ext r \<longleftrightarrow> spec_has_video_ext (lower r)"
proof (induction r)
  case Nil
  show ?case by (simp add: spec_has_video_ext_def lower_def list_ex_iff video_exts_def)
next
  case (Cons c r)
  then have IH: "re_search_ext r \<longleftrightarrow> spec_has_video_ext (lower r)" by simp
  have here: "ext_match_here (c # r) \<longleftrightarrow> (\<exists>e \<in> set video_exts. lower (c # r) = CHR ''.'' # e)"
    using Cons.prems by (rule ext_match_here_allowed)
  have "spec_has_video_ext (lower (c # r)) \<longleftrightarrow>
          (\<exists>e \<in> set video_exts. lower (c # r) = CHR ''.'' # e) \<or> spec_has_video_ext (lower r)"
    by (auto simp: spec_has_video_ext_def list_ex_iff lower_Cons suffix_Cons)
  then show ?case using IH here by simp
qed

text \<open>
  Claim C8, as amended. The suggested filename is the title (or \<open>video\<close> when the title
  is missing or empty) with white space stripped at both ends, every maximal run of
  characters outside \<open>A-Za-z0-9._-\<close> replaced by one underscore, and \<open>.mp4\<close> appended
  unless the result ends, in any letter case, in a dot and one of \<open>mp4\<close>, \<open>mov\<close>, \<open>webm\<close>,
  \<open>mkv\<close>.
\<close>

theorem safe_filename_amended: "safe_filename name = amended_safe_filename name"
proof -
  define t where
    "t = strip (case name of None \<Rightarrow> ''video'' | Some n \<Rightarrow> if n = [] then ''video'' else n)"
  have "re_search_ext (re_sub_unsafe t) \<longleftrightarrow> spec_has_video_ext (lower (re_sub_unsafe t))"
    by (rule re_search_ext_allowed) (rule re_sub_unsafe_output)
  then show ?thesis
    by (simp add: safe_filename_def amended_safe_filename_def Let_def t_def
        re_sub_unsafe_squeeze squeeze_def)
qed

text \<open>
  Claim C8 as stated replaces each character by its own underscore and appends the
  suffix by a plain comparison. The code differs on a leading blank (stripped, not
  replaced), on a run of two blanks (one underscore), on the empty title (the default
  name) and on an upper-case extension (recognised).
\<close>

theorem safe_filename_counterexample:
  "safe_filename (Some '' a'') \<noteq> spec_safe_filename '' a'' \<and>
   safe_filename (Some ''a  b'') \<noteq> spec_safe_filename ''a  b'' \<and>
   safe_filename (Some []) \<noteq> spec_safe_filename [] \<and>
   safe_filename (Some ''clip.MP4'') \<noteq> spec_safe_filename ''clip.MP4''"
  by code_simp

section \<open>Properties of the download handler\<close>

lemma bind_io_return: "bind_io (return x) f = f x"
  by (simp add: bind_io_def return_def)

lemma bind_io_raise: "bind_io (raise ex) f = raise ex"
  by (simp add: bind_io_def raise_def)

lemma bind_io_Inr: "m w = (Inr x, w') \<Longrightarrow> bind_io m f w = f x w'"
  by (simp add: bind_io_def)

lemma bind_io_Inl: "m w = (Inl ex, w') \<Longrightarrow> bind_io m f w = (Inl ex, w')"
  by (simp add: bind_io_def)

lemma os_unlink_present:
  "fs w p = Some old \<Longrightarrow>
   os_unlink p w = (Inr (), w\<lparr>fs := (fs w)(p := None), trace := trace w @ [Unlink p]\<rparr>)"
  by (simp add: os_unlink_def)

lemma os_unlink_absent:
  "fs w p = None \<Longrightarrow>
   os_unlink p w = (Inl FileNotFoundError, w\<lparr>trace := trace w @ [UnlinkFailed p]\<rparr>)"
  by (simp add: os_unlink_def)

lemma disk_usage_append: "disk_usage p (xs @ ys) = disk_usage p xs + disk_usage p ys"
  by (induction p xs rule: disk_usage.induct) simp_all

lemma disk_usage_take: "disk_usage p (take k evs) \<le> disk_usage p evs"
proof -
  have "disk_usage p evs = disk_usage p (take k evs) + disk_usage p (drop k evs)"
    using disk_usage_append[of p "take k evs" "drop k evs"] by simp
  then show ?thesis by simp
qed

lemma unlink_then_abort:
  "\<exists>ex. fst (bind_io (os_unlink p) (\<lambda>_. abort code msg :: unit io) w) = Inl ex"
  by (cases "fs w p") (simp_all add: bind_io_def os_unlink_def abort_def raise_def)

text \<open>What one run of the loop does, by induction on the body.\<close>

lemma relay_loop_writes:
  "fs w p \<noteq> None \<Longrightarrow> written \<le> MAX_BYTES cfg \<Longrightarrow>
   \<exists>evs. trace (snd (relay_loop cfg e p chunks written w)) = trace w @ evs \<and>
         written + disk_usage p evs \<le> MAX_BYTES cfg"
proof (induction cfg e p chunks written arbitrary: w rule: relay_loop.induct)
  case (1 cfg e p written)
  then show ?case by (simp add: return_def)
next
  case (2 cfg e p rest written)
  then show ?case by (simp add: raise_def)
next
  case (3 cfg e p chunk rest written)
  from "3.prems" obtain old where old: "fs w p = Some old" by auto
  show ?case
  proof (cases "chunk = []")
    case True
    with 3 show ?thesis by simp
  next
    case ne: False
    show ?thesis
    proof (cases "written + length chunk > MAX_BYTES cfg")
      case True
      with ne old "3.prems" show ?thesis
        by (simp add: bind_io_def os_unlink_def abort_def raise_def)
    next
      case fits: False
      show ?thesis
      proof (cases "disk_space e < length old + length chunk")
        case True
        with ne fits old "3.prems" show ?thesis
          by (simp add: bind_io_def tmp_write_def)
      next
        case False
        define w1 where "w1 = w\<lparr>fs := (fs w)(p \<mapsto> old @ chunk),
                                  trace := trace w @ [Write p (length chunk)]\<rparr>"
        have step: "relay_loop cfg e p (Chunk chunk # rest) written w =
                      relay_loop cfg e p rest (written + length chunk) w1"
          using ne fits old False by (simp add: bind_io_def tmp_write_def w1_def)
        have "fs w1 p \<noteq> None" by (simp add: w1_def)
        moreover have "written + length chunk \<le> MAX_BYTES cfg" using fits by simp
        ultimately obtain evs where
          evs: "trace (snd (relay_loop cfg e p rest (written + length chunk) w1)) = trace w1 @ evs"
               "written + length chunk + disk_usage p evs \<le> MAX_BYTES cfg"
          using "3.IH"(2)[OF ne fits, of w1] by blast
        have "trace (snd (relay_loop cfg e p (Chunk chunk # rest) written w)) =
                trace w @ (Write p (length chunk) # evs)"
          using evs(1) step by (simp add: w1_def)
        moreover have "written + disk_usage p (Write p (length chunk) # evs) \<le> MAX_BYTES cfg"
          using evs(2) by simp
        ultimately show ?thesis by blast
      qed
    qed
  qed
qed

lemma relay_loop_success_total:
  "written \<le> MAX_BYTES cfg \<Longrightarrow> fst (relay_loop cfg e p chunks written w) = Inr u \<Longrightarrow>
   written + total_bytes chunks \<le> MAX_BYTES cfg"
proof (induction cfg e p chunks written arbitrary: w rule: relay_loop.induct)
  case (1 cfg e p written)
  then show ?case by simp
next
  case (2 cfg e p rest written)
  then show ?case by (simp add: raise_def)
next
  case (3 cfg e p chunk rest written)
  show ?case
  proof (cases "chunk = []")
    case True
    with 3 show ?thesis by simp
  next
    case ne: False
    show ?thesis
    proof (cases "written + length chunk > MAX_BYTES cfg")
      case True
      with True ne "3.prems" unlink_then_abort[of p 413 Exceeded_Limit w] show ?thesis by auto
    next
      case fits: False
      then have le: "written + length chunk \<le> MAX_BYTES cfg" by simp
      obtain res w1 where tw: "tmp_write e p chunk w = (res, w1)" by (cases "tmp_write e p chunk w")
      show ?thesis
      proof (cases res)
        case (Inl ex)
        with ne fits tw "3.prems" show ?thesis by (simp add: bind_io_def)
      next
        case (Inr v)
        with ne fits tw "3.prems"
        have "fst (relay_loop cfg e p rest (written + length chunk) w1) = Inr u"
          by (simp add: bind_io_def)
        from "3.IH"(2)[OF ne fits le this] show ?thesis by simp
      qed
    qed
  qed
qed

lemma relay_loop_file:
  "fs w p \<noteq> None \<Longrightarrow> relay_loop cfg e p chunks written w = (res, w') \<Longrightarrow>
   (fs w' p = None) = (res = Inl (HTTPException 413 Exceeded_Limit))"
proof (induction cfg e p chunks written arbitrary: w rule: relay_loop.induct)
  case (1 cfg e p written)
  then show ?case by (auto simp: return_def)
next
  case (2 cfg e p rest written)
  then show ?case by (auto simp: raise_def)
next
  case (3 cfg e p chunk rest written)
  from "3.prems" obtain old where old: "fs w p = Some old" by auto
  show ?case
  proof (cases "chunk = []")
    case True
    with 3 show ?thesis by simp
  next
    case ne: False
    show ?thesis
    proof (cases "written + length chunk > MAX_BYTES cfg")
      case True
      with ne old "3.prems" show ?thesis
        by (auto simp: bind_io_def os_unlink_def abort_def raise_def)
    next
      case fits: False
      show ?thesis
      proof (cases "disk_space e < length old + length chunk")
        case True
        with ne fits old "3.prems" show ?thesis
          by (auto simp: bind_io_def tmp_write_def)
      next
        case False
        define w1 where "w1 = w\<lparr>fs := (fs w)(p \<mapsto> old @ chunk),
                                  trace := trace w @ [Write p (length chunk)]\<rparr>"
        have step: "relay_loop cfg e p (Chunk chunk # rest) written w =
                      relay_loop cfg e p rest (written + length chunk) w1"
          using ne fits old False by (simp add: bind_io_def tmp_write_def w1_def)
        have "fs w1 p \<noteq> None" by (simp add: w1_def)
        from "3.IH"(2)[OF ne fits this] step "3.prems"(2) show ?thesis by simp
      qed
    qed
  qed
qed


lemma media_temp_result: "media_temp w = (Inr (next_tmp w), snd (media_temp w))"
  by (simp add: media_temp_def)

lemma media_temp_file: "fs (snd (media_temp w)) (next_tmp w) = Some []"
  by (simp add: media_temp_def)

lemma media_temp_trace: "trace (snd (media_temp w)) = trace w @ [MediaTemp (next_tmp w)]"
  by (simp add: media_temp_def)

lemma stream_to_temp_cases:
  assumes "relay_loop cfg e (next_tmp w) (body r) 0 (snd (media_temp w)) = (res, w2)"
  shows "stream_to_temp cfg e r w =
           (case res of
              Inr u \<Rightarrow> (Inr (next_tmp w), w2)
            | Inl ex \<Rightarrow>
                if ex = HTTPException 413 Exceeded_Limit
                then (Inl FileNotFoundError, w2\<lparr>trace := trace w2 @ [UnlinkFailed (next_tmp w)]\<rparr>)
                else (Inl (HTTPException 500 Error_During_Download),
                      w2\<lparr>fs := (fs w2)((next_tmp w) := None),
                         trace := trace w2 @ [Unlink (next_tmp w)]\<rparr>))"
proof -
  have ex: "fs (snd (media_temp w)) (next_tmp w) \<noteq> None"
    by (simp add: media_temp_file)
  note gone = relay_loop_file[OF ex assms]
  have unfold: "stream_to_temp cfg e r w =
      bind_io (try_except (relay_loop cfg e (next_tmp w) (body r) 0) (\<lambda>_. True)
                (bind_io (os_unlink (next_tmp w)) (\<lambda>_. abort 500 Error_During_Download)))
        (\<lambda>_. return (next_tmp w)) (snd (media_temp w))"
    unfolding stream_to_temp_def by (simp only: bind_io_Inr[of media_temp, OF media_temp_result])
  show ?thesis
  proof (cases res)
    case (Inr u)
    with assms show ?thesis
      unfolding unfold by (simp add: bind_io_def try_except_def return_def)
  next
    case (Inl ex)
    show ?thesis
    proof (cases "ex = HTTPException 413 Exceeded_Limit")
      case True
      with gone Inl have "fs w2 (next_tmp w) = None" by simp
      with assms Inl True show ?thesis
        unfolding unfold
        by (simp add: bind_io_def try_except_def os_unlink_def)
    next
      case False
      with gone Inl obtain d where "fs w2 (next_tmp w) = Some d" by auto
      with assms Inl False show ?thesis
        unfolding unfold
        by (simp add: bind_io_def try_except_def os_unlink_def abort_def raise_def)
    qed
  qed
qed

lemma events_since_append: "trace w' = trace w @ evs \<Longrightarrow> events_since w w' = evs"
  by (simp add: events_since_def)

text \<open>
  Claim C3. For every body and every ceiling, at every point of the run of the relay
  the bytes written to the temporary file are at most \<open>MAX_BYTES\<close>; and when the chunks
  of the body add up to more than \<open>MAX_BYTES\<close>, the temporary file is gone at the end and
  the relay has raised instead of returning a path.
\<close>

theorem relay_never_exceeds_ceiling:
  "(\<forall>k. disk_usage (next_tmp w) (take k (events_since w (snd (stream_to_temp cfg e r w))))
          \<le> MAX_BYTES cfg) \<and>
   (MAX_BYTES cfg < total_bytes (body r) \<longrightarrow>
      fs (snd (stream_to_temp cfg e r w)) (next_tmp w) = None \<and>
      isl (fst (stream_to_temp cfg e r w)))"
proof -
  define p where "p = next_tmp w"
  define w1 where "w1 = snd (media_temp w)"
  obtain res w2 where loop: "relay_loop cfg e p (body r) 0 w1 = (res, w2)"
    by (cases "relay_loop cfg e p (body r) 0 w1")
  have ex: "fs w1 p \<noteq> None" by (simp add: w1_def p_def media_temp_file)
  from relay_loop_writes[OF ex, of 0 cfg e "body r"] loop
  obtain evs where evs: "trace w2 = trace w1 @ evs" "disk_usage p evs \<le> MAX_BYTES cfg"
    by auto
  have gone: "(fs w2 p = None) = (res = Inl (HTTPException 413 Exceeded_Limit))"
    by (rule relay_loop_file[OF ex loop])
  note cases = stream_to_temp_cases[OF loop[unfolded p_def w1_def], folded p_def]
  have tr1: "trace w1 = trace w @ [MediaTemp p]" by (simp add: w1_def p_def media_temp_trace)
  have "\<exists>tail. trace (snd (stream_to_temp cfg e r w)) = trace w2 @ tail \<and> disk_usage p tail = 0"
  proof (cases res)
    case (Inr u)
    then show ?thesis unfolding cases by simp
  next
    case (Inl ex)
    then show ?thesis unfolding cases
      by (cases "ex = HTTPException 413 Exceeded_Limit") simp_all
  qed
  then obtain tail where tail: "trace (snd (stream_to_temp cfg e r w)) = trace w2 @ tail"
    "disk_usage p tail = 0"
    by blast
  have all: "events_since w (snd (stream_to_temp cfg e r w)) = MediaTemp p # evs @ tail"
    by (rule events_since_append) (simp add: tail evs tr1)
  have usage: "disk_usage p (MediaTemp p # evs @ tail) \<le> MAX_BYTES cfg"
    using evs(2) tail(2) by (simp add: disk_usage_append)
  have bound: "disk_usage p (take k (events_since w (snd (stream_to_temp cfg e r w)))) \<le> MAX_BYTES cfg"
    for k
    unfolding all using disk_usage_take[of p k "MediaTemp p # evs @ tail"] usage by linarith
  have over: "fs (snd (stream_to_temp cfg e r w)) p = None \<and> isl (fst (stream_to_temp cfg e r w))"
    if big: "MAX_BYTES cfg < total_bytes (body r)"
  proof (cases res)
    case (Inr u)
    with loop have "fst (relay_loop cfg e p (body r) 0 w1) = Inr u" by simp
    from relay_loop_success_total[OF _ this] big show ?thesis by simp
  next
    case (Inl ex)
    with gone show ?thesis unfolding cases by (cases "ex = HTTPException 413 Exceeded_Limit") simp_all
  qed
  from bound over show ?thesis unfolding p_def by blast
qed


lemma http_gets_append: "http_gets (xs @ ys) = http_gets xs @ http_gets ys"
  by (induction xs rule: http_gets.induct) simp_all

lemma media_temps_append: "media_temps (xs @ ys) = media_temps xs @ media_temps ys"
  by (induction xs rule: media_temps.induct) simp_all

lemma silentI:
  "(\<And>w. \<exists>evs. trace (snd (m w)) = trace w @ evs \<and> http_gets evs = [] \<and> media_temps evs = [])
   \<Longrightarrow> silent m"
  by (simp add: silent_def)

lemma silentD:
  "silent m \<Longrightarrow> \<exists>evs. trace (snd (m w)) = trace w @ evs \<and> http_gets evs = [] \<and> media_temps evs = []"
  by (simp add: silent_def)

lemma silent_return: "silent (return x)"
  by (simp add: silent_def return_def)

lemma silent_raise: "silent (raise ex)"
  by (simp add: silent_def raise_def)

lemma silent_abort: "silent (abort code msg)"
  by (simp add: abort_def silent_raise)

lemma silent_bind:
  assumes "silent m" and "\<And>x. silent (f x)"
  shows "silent (bind_io m f)"
proof (rule silentI)
  fix w
  obtain res w1 where m: "m w = (res, w1)" by (cases "m w")
  from silentD[OF assms(1), of w] m obtain evs where
    evs: "trace w1 = trace w @ evs" "http_gets evs = []" "media_temps evs = []" by auto
  show "\<exists>evs. trace (snd (bind_io m f w)) = trace w @ evs \<and> http_gets evs = [] \<and> media_temps evs = []"
  proof (cases res)
    case (Inl ex)
    with m evs show ?thesis by (simp add: bind_io_def)
  next
    case (Inr x)
    from silentD[OF assms(2), of x w1] obtain evs2 where
      evs2: "trace (snd (f x w1)) = trace w1 @ evs2" "http_gets evs2 = []" "media_temps evs2 = []"
      by auto
    have "trace (snd (bind_io m f w)) = trace w @ (evs @ evs2)"
      using m Inr evs(1) evs2(1) by (simp add: bind_io_def)
    moreover have "http_gets (evs @ evs2) = []" "media_temps (evs @ evs2) = []"
      using evs evs2 by (simp_all add: http_gets_append media_temps_append)
    ultimately show ?thesis by blast
  qed
qed

lemma silent_try:
  assumes "silent m" and "silent h"
  shows "silent (try_except m caught h)"
proof (rule silentI)
  fix w
  obtain res w1 where m: "m w = (res, w1)" by (cases "m w")
  from silentD[OF assms(1), of w] m obtain evs where
    evs: "trace w1 = trace w @ evs" "http_gets evs = []" "media_temps evs = []" by auto
  show "\<exists>evs. trace (snd (try_except m caught h w)) = trace w @ evs \<and> http_gets evs = [] \<and>
          media_temps evs = []"
  proof (cases "\<exists>ex. res = Inl ex \<and> caught ex")
    case False
    then have "try_except m caught h w = (res, w1)"
      using m by (cases res) (simp_all add: try_except_def)
    with evs show ?thesis by simp
  next
    case True
    then have t: "try_except m caught h w = h w1"
      using m by (auto simp: try_except_def)
    from silentD[OF assms(2), of w1] obtain evs2 where
      evs2: "trace (snd (h w1)) = trace w1 @ evs2" "http_gets evs2 = []" "media_temps evs2 = []"
      by auto
    have "trace (snd (try_except m caught h w)) = trace w @ (evs @ evs2)"
      using t evs(1) evs2(1) by simp
    moreover have "http_gets (evs @ evs2) = []" "media_temps (evs @ evs2) = []"
      using evs evs2 by (simp_all add: http_gets_append media_temps_append)
    ultimately show ?thesis by blast
  qed
qed

lemma silent_os_unlink: "silent (os_unlink p)"
  by (rule silentI) (simp add: os_unlink_def split: option.splits)

lemma silent_read_file: "silent (read_file p)"
  by (rule silentI) (simp add: read_file_def split: option.splits)

lemma silent_cookie_temp: "silent (cookie_temp content)"
  by (rule silentI) (simp add: cookie_temp_def)

lemma silent_log_Extract: "silent (log (Extract u))"
  by (rule silentI) (simp add: log_def)

lemma silent_save_cookies: "silent (save_cookies req)"
  unfolding save_cookies_def
  by (auto split: option.splits prod.splits
      intro!: silent_bind silent_return silent_cookie_temp)

lemma silent_unlink_cookies: "silent (unlink_cookies cf)"
  unfolding unlink_cookies_def
  by (auto split: option.splits intro!: silent_return silent_os_unlink)

lemma silent_ydl_extract: "silent (ydl_extract e u cf)"
  unfolding ydl_extract_def
  by (auto split: option.splits sum.splits
      intro!: silent_bind silent_return silent_raise silent_read_file silent_log_Extract)

lemma silent_resolve: "silent (resolve e req)"
  unfolding resolve_def Let_def
  by (intro silent_bind silent_try silent_save_cookies silent_unlink_cookies silent_ydl_extract
      silent_return silent_abort)
    (auto intro!: silent_abort silent_return)

lemma choose_format_world: "snd (choose_format cfg i q w) = w"
  by (auto simp: choose_format_def Let_def bind_io_def abort_def raise_def return_def
      split: option.splits sum.splits prod.splits)

lemma choose_format_too_long:
  "duration i = Some d \<Longrightarrow> of_nat (MAX_DURATION_SEC cfg) < d \<Longrightarrow>
   choose_format cfg i q w = (Inl (HTTPException 413 (Video_Too_Long d)), w)"
proof -
  assume a: "duration i = Some d" "of_nat (MAX_DURATION_SEC cfg) < d"
  have "(0::rat) \<le> of_nat (MAX_DURATION_SEC cfg)" by simp
  with a(2) have "d \<noteq> 0" by linarith
  with a show ?thesis
    by (simp add: choose_format_def Let_def bind_io_def abort_def raise_def)
qed

lemma fetch_fails:
  assumes "requests_get e u = Inl RequestException \<or>
           (\<exists>r. requests_get e u = Inr r \<and> 400 \<le> status_code r \<and> status_code r < 600)"
  shows "fetch e u w = (Inl (HTTPException 504 Error_Fetching), w\<lparr>trace := trace w @ [HttpGet u]\<rparr>)"
  using assms
  by (auto simp: fetch_def try_except_def bind_io_def log_def raise_def return_def abort_def
      raise_for_status_def)

lemma fetch_ok:
  assumes "requests_get e u = Inr r" and "\<not> (400 \<le> status_code r \<and> status_code r < 600)"
  shows "fetch e u w = (Inr r, w\<lparr>trace := trace w @ [HttpGet u]\<rparr>)"
  using assms
  by (auto simp: fetch_def try_except_def bind_io_def log_def raise_def return_def abort_def
      raise_for_status_def)

text \<open>
  Claim C6. When the resolver has answered and the duration it reports (for a playlist,
  that of the first entry) exceeds \<open>MAX_DURATION_SEC\<close>, the handler aborts with 413 and
  the message about the duration, and up to that point no URL has been fetched.
\<close>

theorem duration_rejected_before_fetch:
  assumes "resolve e req w = (Inr (i, q), w1)"
    and "duration i = Some d" and "of_nat (MAX_DURATION_SEC cfg) < d"
  shows "fst (download cfg e req w) = Inl (HTTPException 413 (Video_Too_Long d)) \<and>
         http_gets (events_since w (snd (download cfg e req w))) = []"
proof -
  have d: "download cfg e req w = (Inl (HTTPException 413 (Video_Too_Long d)), w1)"
    unfolding download_def
    by (simp add: bind_io_Inr[of "resolve e req", OF assms(1)]
        bind_io_Inl[of "choose_format cfg i q", OF choose_format_too_long[OF assms(2,3)]])
  from silentD[OF silent_resolve, of e req w] assms(1)
  obtain evs where "trace w1 = trace w @ evs" "http_gets evs = []" by auto
  then have "http_gets (events_since w w1) = []"
    by (simp add: events_since_append)
  with d show ?thesis by simp
qed

text \<open>
  Claim C7, as amended. When the request has passed every check before the fetch and
  the fetch of the chosen URL raises an exception of \<open>requests\<close> or returns a status from
  400 to 599, the handler aborts with 504, the chosen URL is the only one fetched, and no
  temporary media file has been created.
\<close>

theorem failed_fetch_is_gateway_error:
  assumes "resolve e req w = (Inr (i, q), w1)"
    and "choose_format cfg i q w1 = (Inr c, w2)"
    and "url c = Some u"
    and "requests_get e u = Inl RequestException \<or>
         (\<exists>r. requests_get e u = Inr r \<and> 400 \<le> status_code r \<and> status_code r < 600)"
  shows "fst (download cfg e req w) = Inl (HTTPException 504 Error_Fetching) \<and>
         media_temps (events_since w (snd (download cfg e req w))) = [] \<and>
         http_gets (events_since w (snd (download cfg e req w))) = [u]"
proof -
  have w2: "w2 = w1" using choose_format_world[of cfg i q w1] assms(2) by simp
  have d: "download cfg e req w =
             (Inl (HTTPException 504 Error_Fetching), w1\<lparr>trace := trace w1 @ [HttpGet u]\<rparr>)"
    unfolding download_def
    by (simp add: bind_io_Inr[of "resolve e req", OF assms(1)]
        bind_io_Inr[of "choose_format cfg i q", OF assms(2)] assms(3) w2
        bind_io_Inl[of "fetch e u", OF fetch_fails[OF assms(4)]])
  from silentD[OF silent_resolve, of e req w] assms(1)
  obtain evs where evs: "trace w1 = trace w @ evs" "http_gets evs = []" "media_temps evs = []"
    by auto
  have "events_since w (w1\<lparr>trace := trace w1 @ [HttpGet u]\<rparr>) = evs @ [HttpGet u]"
    by (rule events_since_append) (simp add: evs(1))
  with d evs show ?thesis by (simp add: http_gets_append media_temps_append)
qed

lemma strip_example_url: "strip ''https://video.example/watch'' = ''https://video.example/watch''"
  by (simp add: strip_def isspace_def)

lemma lower_strip_best: "lower (strip ''best'') = ''best''"
  by (simp add: strip_def isspace_def lower_def lower_char_def)

lemma lower_https: "lower ''https'' = ''https''"
  by (simp add: lower_def lower_char_def)

lemma resolve_example:
  "resolve (example_env d answer) example_request w =
     (Inr (example_info d, ''best''), w\<lparr>trace := trace w @ [Extract ''https://video.example/watch'']\<rparr>)"
  by (simp add: resolve_def example_env_def example_request_def str_or_def strip_example_url
      lower_strip_best lower_https ALLOWED_SCHEMES_def Let_def bind_io_def return_def
      save_cookies_def try_except_def ydl_extract_def log_def unlink_cookies_def first_entry_def
      example_info_def)

lemma pick_format_example:
  "pick_format [example_format ''mp4'' 720] ''best'' = Inr (Some (example_format ''mp4'' 720))"
  by (simp add: pick_format_def Let_def example_format_simps target_height_best truthy_height_def)

lemma example_format_url:
  "url (example_format x h) = Some ''https://cdn.example/v''"
  "est_size (example_format x h) = None"
  by (simp_all add: example_format_def est_size_def)

lemma choose_format_example:
  "d \<le> 600 \<Longrightarrow>
   choose_format default_config (example_info d) ''best'' w = (Inr (example_format ''mp4'' 720), w)"
  by (simp add: choose_format_def Let_def example_info_def default_config_def bind_io_def
      return_def pick_format_example str_or_def example_format_url)


lemma duration_example: "duration (example_info d) = Some d"
  by (simp add: example_info_def)

lemma title_example: "safe_filename (title (example_info d)) = ''My_clip.mp4''"
  unfolding example_info_def info.sel by code_simp

theorem duration_rejected_before_fetch_witness:
  "resolve (example_env 700 (Inl RequestException)) example_request example_world =
     (Inr (example_info 700, ''best''),
      example_world\<lparr>trace := trace example_world @ [Extract ''https://video.example/watch'']\<rparr>) \<and>
   duration (example_info 700) = Some 700 \<and>
   of_nat (MAX_DURATION_SEC default_config) < (700 :: rat) \<and>
   fst (download default_config (example_env 700 (Inl RequestException)) example_request
          example_world) = Inl (HTTPException 413 (Video_Too_Long 700)) \<and>
   http_gets (events_since example_world
      (snd (download default_config (example_env 700 (Inl RequestException)) example_request
              example_world))) = []"
proof -
  have long: "of_nat (MAX_DURATION_SEC default_config) < (700 :: rat)"
    by (simp add: default_config_def)
  from duration_rejected_before_fetch[OF resolve_example duration_example long]
  show ?thesis using resolve_example duration_example long by blast
qed

theorem failed_fetch_is_gateway_error_witness:
  "resolve (example_env 60 (Inr \<lparr>status_code = 404, body = []\<rparr>)) example_request example_world =
     (Inr (example_info 60, ''best''),
      example_world\<lparr>trace := trace example_world @ [Extract ''https://video.example/watch'']\<rparr>) \<and>
   url (example_format ''mp4'' 720) = Some ''https://cdn.example/v'' \<and>
   fst (download default_config (example_env 60 (Inr \<lparr>status_code = 404, body = []\<rparr>))
          example_request example_world) = Inl (HTTPException 504 Error_Fetching) \<and>
   media_temps (events_since example_world
      (snd (download default_config (example_env 60 (Inr \<lparr>status_code = 404, body = []\<rparr>))
              example_request example_world))) = [] \<and>
   http_gets (events_since example_world
      (snd (download default_config (example_env 60 (Inr \<lparr>status_code = 404, body = []\<rparr>))
              example_request example_world))) = [''https://cdn.example/v'']"
proof -
  let ?e = "example_env 60 (Inr \<lparr>status_code = 404, body = []\<rparr>)"
  have short: "(60 :: rat) \<le> 600" by simp
  have fails: "requests_get ?e ''https://cdn.example/v'' = Inl RequestException \<or>
       (\<exists>r. requests_get ?e ''https://cdn.example/v'' = Inr r \<and> 400 \<le> status_code r \<and>
            status_code r < 600)"
    by (simp add: example_env_def)
  from failed_fetch_is_gateway_error[OF resolve_example choose_format_example[OF short]
      example_format_url(1) fails]
  show ?thesis using resolve_example example_format_url(1) by blast
qed

text \<open>
  Claim C7 as stated covers every status outside 200 to 299. A response with status 304
  passes \<open>raise_for_status\<close>: the handler creates the temporary file and sends it.
\<close>

theorem non_2xx_counterexample:
  "fst (download default_config (example_env 60 (Inr \<lparr>status_code = 304, body = []\<rparr>))
          example_request example_world) =
     Inr \<lparr>sent_path = 0, download_name = ''My_clip.mp4'', mimetype = ''video/mp4'',
          sent_data = []\<rparr> \<and>
   media_temps (trace (snd (download default_config
      (example_env 60 (Inr \<lparr>status_code = 304, body = []\<rparr>)) example_request example_world))) = [0]"
proof -
  let ?r = "\<lparr>status_code = 304, body = []\<rparr>"
  let ?e = "example_env 60 (Inr ?r)"
  let ?w1 = "example_world\<lparr>trace := trace example_world @ [Extract ''https://video.example/watch'']\<rparr>"
  let ?w2 = "?w1\<lparr>trace := trace ?w1 @ [HttpGet ''https://cdn.example/v'']\<rparr>"
  have short: "(60 :: rat) \<le> 600" by simp
  have get: "requests_get ?e ''https://cdn.example/v'' = Inr ?r"
    by (simp add: example_env_def)
  have ok: "\<not> (400 \<le> status_code ?r \<and> status_code ?r < 600)" by simp
  have "download default_config ?e example_request example_world =
          bind_io (stream_to_temp default_config ?e ?r) (\<lambda>tmp_path.
          bind_io (read_file tmp_path) (\<lambda>data.
          bind_io (try_except (os_unlink tmp_path) (\<lambda>_. True) (return ())) (\<lambda>_.
          return \<lparr>sent_path = tmp_path, download_name = safe_filename (title (example_info 60)),
                  mimetype = ''video/mp4'', sent_data = data\<rparr>))) ?w2"
    unfolding download_def
    by (simp add: bind_io_Inr[of "resolve ?e example_request", OF resolve_example]
        bind_io_Inr[of "choose_format default_config (example_info 60) ''best''",
          OF choose_format_example[OF short]]
        example_format_url
        bind_io_Inr[of "fetch ?e ''https://cdn.example/v''", OF fetch_ok[OF get ok]])
  then show ?thesis
    by (simp add: title_example stream_to_temp_def bind_io_def media_temp_def try_except_def
        return_def read_file_def os_unlink_def example_world_def)
qed

theorem relay_never_exceeds_ceiling_witness:
  "MAX_BYTES \<lparr>MAX_BYTES = 4, MAX_DURATION_SEC = 600\<rparr>
     < total_bytes (body \<lparr>status_code = 200, body = [Chunk [1, 2, 3], Chunk [4, 5]]\<rparr>) \<and>
   fs (snd (stream_to_temp \<lparr>MAX_BYTES = 4, MAX_DURATION_SEC = 600\<rparr>
              (example_env 60 (Inl RequestException))
              \<lparr>status_code = 200, body = [Chunk [1, 2, 3], Chunk [4, 5]]\<rparr> example_world))
      (next_tmp example_world) = None \<and>
   isl (fst (stream_to_temp \<lparr>MAX_BYTES = 4, MAX_DURATION_SEC = 600\<rparr>
              (example_env 60 (Inl RequestException))
              \<lparr>status_code = 200, body = [Chunk [1, 2, 3], Chunk [4, 5]]\<rparr> example_world))"
proof -
  have big: "MAX_BYTES \<lparr>MAX_BYTES = 4, MAX_DURATION_SEC = 600\<rparr>
     < total_bytes (body \<lparr>status_code = 200, body = [Chunk [1, 2, 3], Chunk [4, 5]]\<rparr>)"
    by simp
  from relay_never_exceeds_ceiling[of example_world "\<lparr>MAX_BYTES = 4, MAX_DURATION_SEC = 600\<rparr>"
      "example_env 60 (Inl RequestException)"
      "\<lparr>status_code = 200, body = [Chunk [1, 2, 3], Chunk [4, 5]]\<rparr>"] big
  show ?thesis by blast
qed


lemma relay_loop_chunk_fits:
  assumes "fs w p = Some old" and "c \<noteq> []" and "written + length c \<le> MAX_BYTES cfg"
    and "length old + length c \<le> disk_space e"
  shows "relay_loop cfg e p (Chunk c # rest) written w =
           relay_loop cfg e p rest (written + length c)
             (w\<lparr>fs := (fs w)(p \<mapsto> old @ c), trace := trace w @ [Write p (length c)]\<rparr>)"
  using assms by (simp add: bind_io_def tmp_write_def)

lemma relay_loop_chunk_exceeds:
  assumes "fs w p = Some old" and "c \<noteq> []" and "MAX_BYTES cfg < written + length c"
  shows "relay_loop cfg e p (Chunk c # rest) written w =
           (Inl (HTTPException 413 Exceeded_Limit),
            w\<lparr>fs := (fs w)(p := None), trace := trace w @ [Unlink p]\<rparr>)"
  using assms by (simp add: bind_io_def os_unlink_def abort_def raise_def)

lemma relay_loop_replicate:
  "fs w p = Some old \<Longrightarrow> c \<noteq> [] \<Longrightarrow> written + n * length c \<le> MAX_BYTES cfg \<Longrightarrow>
   length old + n * length c \<le> disk_space e \<Longrightarrow>
   relay_loop cfg e p (replicate n (Chunk c) @ rest) written w =
     relay_loop cfg e p rest (written + n * length c)
       (w\<lparr>fs := (fs w)(p \<mapsto> old @ concat (replicate n c)),
          trace := trace w @ replicate n (Write p (length c))\<rparr>)"
proof (induction n arbitrary: w old written)
  case 0
  then have "(fs w)(p \<mapsto> old) = fs w" by (simp add: map_upd_triv)
  then show ?case by simp
next
  case (Suc n)
  let ?w1 = "w\<lparr>fs := (fs w)(p \<mapsto> old @ c), trace := trace w @ [Write p (length c)]\<rparr>"
  have step: "relay_loop cfg e p (replicate (Suc n) (Chunk c) @ rest) written w =
                relay_loop cfg e p (replicate n (Chunk c) @ rest) (written + length c) ?w1"
    unfolding replicate_Suc append_Cons
    by (rule relay_loop_chunk_fits) (use Suc.prems in simp_all)
  have ih: "relay_loop cfg e p (replicate n (Chunk c) @ rest) (written + length c) ?w1 =
          relay_loop cfg e p rest (written + length c + n * length c)
            (?w1\<lparr>fs := (fs ?w1)(p \<mapsto> (old @ c) @ concat (replicate n c)),
                 trace := trace ?w1 @ replicate n (Write p (length c))\<rparr>)"
    using Suc.prems by (intro Suc.IH) simp_all
  have world: "?w1\<lparr>fs := (fs ?w1)(p \<mapsto> (old @ c) @ concat (replicate n c)),
                   trace := trace ?w1 @ replicate n (Write p (length c))\<rparr> =
               w\<lparr>fs := (fs w)(p \<mapsto> old @ concat (replicate (Suc n) c)),
                 trace := trace w @ replicate (Suc n) (Write p (length c))\<rparr>"
    by simp
  have count: "written + length c + n * length c = written + Suc n * length c"
    by simp
  show ?case by (simp only: step ih world count)
qed

lemma length_mebibyte: "length mebibyte = 1048576"
  by (simp add: mebibyte_def)

lemma mebibyte_not_empty: "mebibyte \<noteq> []"
  using length_mebibyte by auto

lemma oversized_relay:
  "stream_to_temp default_config (example_env d answer) oversized_response w =
     (Inl FileNotFoundError,
      w\<lparr>fs := (fs w)(next_tmp w := None), next_tmp := Suc (next_tmp w),
        trace := trace w @ [MediaTemp (next_tmp w)] @ replicate 300 (Write (next_tmp w) 1048576) @
                 [Unlink (next_tmp w), UnlinkFailed (next_tmp w)]\<rparr>)"
proof -
  let ?p = "next_tmp w"
  let ?e = "example_env d answer"
  let ?w1 = "snd (media_temp w)"
  let ?w2 = "?w1\<lparr>fs := (fs ?w1)(?p \<mapsto> [] @ concat (replicate 300 mebibyte)),
                  trace := trace ?w1 @ replicate 300 (Write ?p (length mebibyte))\<rparr>"
  have "(301::nat) = Suc 300" by simp
  then have "replicate 301 (Chunk mebibyte) = Chunk mebibyte # replicate 300 (Chunk mebibyte)"
    by (simp only: replicate_Suc)
  then have body: "body oversized_response = replicate 300 (Chunk mebibyte) @ [Chunk mebibyte]"
    by (simp add: oversized_response_def replicate_append_same)
  have run: "relay_loop default_config ?e ?p (body oversized_response) 0 ?w1 =
               relay_loop default_config ?e ?p [Chunk mebibyte] (0 + 300 * length mebibyte) ?w2"
    unfolding body
    by (rule relay_loop_replicate)
      (simp_all add: media_temp_file mebibyte_not_empty length_mebibyte default_config_def
        example_env_def)
  have last: "relay_loop default_config ?e ?p [Chunk mebibyte] (0 + 300 * length mebibyte) ?w2 =
                (Inl (HTTPException 413 Exceeded_Limit),
                 ?w2\<lparr>fs := (fs ?w2)(?p := None), trace := trace ?w2 @ [Unlink ?p]\<rparr>)"
    by (rule relay_loop_chunk_exceeds[where old = "[] @ concat (replicate 300 mebibyte)"])
      (simp_all add: mebibyte_not_empty length_mebibyte default_config_def)
  show ?thesis
    unfolding stream_to_temp_cases[OF trans[OF run last]]
    by (simp add: media_temp_def length_mebibyte)
qed

text \<open>
  Claim C2, on the code. With the constants of the source, a body of 301 chunks of one
  mebibyte makes the running total exceed \<open>MAX_BYTES\<close> at the last chunk. The loop
  removes the temporary file and calls \<open>abort(413, ...)\<close>; \<open>except Exception\<close> catches that
  exception, its own \<open>os.unlink\<close> finds no file, and \<open>FileNotFoundError\<close> leaves the view:
  the client sees 500, not 413. The file is removed once and nothing is sent.
\<close>

theorem oversized_download_is_unhandled:
  "fst (download default_config (example_env 60 (Inr oversized_response)) example_request
          example_world) = Inl FileNotFoundError \<and>
   http_status (fst (download default_config (example_env 60 (Inr oversized_response))
                       example_request example_world)) = 500 \<and>
   trace (snd (download default_config (example_env 60 (Inr oversized_response)) example_request
                 example_world)) =
     [Extract ''https://video.example/watch'', HttpGet ''https://cdn.example/v'', MediaTemp 0] @
     replicate 300 (Write 0 1048576) @ [Unlink 0, UnlinkFailed 0]"
proof -
  let ?e = "example_env 60 (Inr oversized_response)"
  let ?w1 = "example_world\<lparr>trace := trace example_world @ [Extract ''https://video.example/watch'']\<rparr>"
  let ?w2 = "?w1\<lparr>trace := trace ?w1 @ [HttpGet ''https://cdn.example/v'']\<rparr>"
  have short: "(60 :: rat) \<le> 600" by simp
  have get: "requests_get ?e ''https://cdn.example/v'' = Inr oversized_response"
    by (simp add: example_env_def)
  have ok: "\<not> (400 \<le> status_code oversized_response \<and> status_code oversized_response < 600)"
    by (simp add: oversized_response_def)
  have "download default_config ?e example_request example_world =
          bind_io (stream_to_temp default_config ?e oversized_response) (\<lambda>tmp_path.
          bind_io (read_file tmp_path) (\<lambda>data.
          bind_io (try_except (os_unlink tmp_path) (\<lambda>_. True) (return ())) (\<lambda>_.
          return \<lparr>sent_path = tmp_path, download_name = safe_filename (title (example_info 60)),
                  mimetype = ''video/mp4'', sent_data = data\<rparr>))) ?w2"
    unfolding download_def
    by (simp add: bind_io_Inr[of "resolve ?e example_request", OF resolve_example]
        bind_io_Inr[of "choose_format default_config (example_info 60) ''best''",
          OF choose_format_example[OF short]]
        example_format_url
        bind_io_Inr[of "fetch ?e ''https://cdn.example/v''", OF fetch_ok[OF get ok]])
  then show ?thesis
    by (simp add: bind_io_Inl[of "stream_to_temp default_config ?e oversized_response",
          OF oversized_relay] http_status_def example_world_def)
qed

end
